theory Spec2Isabelle
  imports Main
begin

section \<open>The outside world of \<open>dnsrecon_elite.py\<close>\<close>

text \<open>
  The scanner delegates every DNS operation and every file read to a library. The model
  takes those collaborators as the fields of a record \<open>world\<close>: each call either returns
  a list of strings or raises, and its result is a function of its arguments (a
  deterministic resolver, a file system that does not change during the scan). All the
  exceptions below are subclasses of Python's \<open>Exception\<close>, so an \<open>except Exception\<close>
  clause catches each of them.
  Console output (\<open>print_banner\<close>, \<open>print_status\<close>) and the wall-clock readings
  (\<open>start_time\<close>, \<open>end_time\<close>, \<open>timestamp\<close>) are left out: no result depends on them.
\<close>

datatype exn =
    LifetimeTimeout
  | NXDOMAIN
  | NoAnswer
  | NoNameservers
  | FormError
  | NoResolverConfiguration
  | TransferError
  | BlockingIOError
  | FileNotFoundError
  | PermissionError
  | IsADirectoryError
  | UnicodeDecodeError
  | ValueError

text \<open>
  \<open>open(filename, 'r')\<close> followed by the iteration over the file: the lines of the file as
  the iteration yields them, or the exception that opening or reading raises.
\<close>

datatype file_read = Lines "string list" | ReadRaises exn

text \<open>
  The inner \<open>try\<close> block of \<open>check_zone_transfer\<close> for one nameserver: the transfer
  \<open>dns.zone.from_xfr(dns.query.xfr(ns_name, domain))\<close>, the loop that appends the names
  of \<open>zone.nodes\<close> to \<open>zone_data\<close>, the status line and the \<open>return\<close>. The block
  either reaches its \<open>return\<close> after appending the names of the zone
  (\<open>Completes names\<close>), or a statement of it raises \<open>e\<close> after \<open>names\<close> have been
  appended (\<open>Fails names e\<close>): no name when the transfer itself is refused or raises,
  some or all names of the zone when a later statement raises.
\<close>

datatype attempt = Completes "string list" | Fails "string list" exn

text \<open>
  \<^item> \<open>dns_resolve name rdtype\<close> is the module-level \<open>dns.resolver.resolve(name, rdtype)\<close>,
    with the answers already converted by \<open>str\<close>;
  \<^item> \<open>new_resolver\<close> is \<open>dns.resolver.Resolver()\<close>: \<open>None\<close> when the client is
    constructed, \<open>Some e\<close> when the construction raises \<open>e\<close>;
  \<^item> \<open>resolver_resolve name rdtype\<close> is \<open>resolver.resolve(name, rdtype)\<close> on such a
    client, with \<open>timeout\<close> and \<open>lifetime\<close> set to 2;
  \<^item> \<open>xfr_attempt ns_name domain\<close> is what the inner \<open>try\<close> block of the zone-transfer
    loop does for the nameserver \<open>ns_name\<close>;
  \<^item> \<open>open_file filename\<close> is the file system.
\<close>

record world =
  dns_resolve :: "string \<Rightarrow> string \<Rightarrow> exn + string list"
  new_resolver :: "exn option"
  resolver_resolve :: "string \<Rightarrow> string \<Rightarrow> exn + string list"
  xfr_attempt :: "string \<Rightarrow> string \<Rightarrow> attempt"
  open_file :: "string \<Rightarrow> file_read"

text \<open>
  The DNS calls a function makes, and the entries and exits of the semaphore-guarded
  block of \<open>check_subdomain\<close>, in the order in which they happen.
\<close>

datatype event =
    DnsResolve string string
  | Xfr string string
  | NewResolver
  | ResolverResolve string string
  | Acquired string
  | Released string

text \<open>What a call does: it returns a value, raises, or never returns.\<close>

datatype 'a outcome = Returns 'a | Raises exn | Hangs

section \<open>\<open>get_dns_records\<close>\<close>

text \<open>
  A Python \<open>dict\<close> keeps its keys in insertion order, and the loop of \<open>get_dns_records\<close>
  runs over \<open>records.keys()\<close>: the snapshot is an association list. Assigning to a key
  that is present replaces its value in place.
\<close>

type_synonym records = "(string \<times> string list) list"

definition initial_records :: records where
  "initial_records =
     [(''A'', []), (''AAAA'', []), (''CNAME'', []), (''MX'', []), (''TXT'', []), (''NS'', [])]"

fun dict_set :: "string \<Rightarrow> string list \<Rightarrow> records \<Rightarrow> records" where
  "dict_set k v [] = [(k, v)]"
| "dict_set k v ((k', v') # kvs) =
     (if k' = k then (k, v) # kvs else (k', v') # dict_set k v kvs)"

text \<open>
  The body of the \<open>for\<close> loop with its bare \<open>except: pass\<close>; the second component is the
  list of queries issued so far.
\<close>

fun get_dns_records_loop ::
  "world \<Rightarrow> string \<Rightarrow> string list \<Rightarrow> records \<times> event list \<Rightarrow> records \<times> event list" where
  "get_dns_records_loop w domain [] acc = acc"
| "get_dns_records_loop w domain (record_type # rest) (records, evs) =
     (case dns_resolve w domain record_type of
        Inr answers \<Rightarrow>
          get_dns_records_loop w domain rest
            (dict_set record_type answers records, evs @ [DnsResolve domain record_type])
      | Inl e \<Rightarrow>
          get_dns_records_loop w domain rest (records, evs @ [DnsResolve domain record_type]))"

definition get_dns_records :: "world \<Rightarrow> string \<Rightarrow> records \<times> event list" where
  "get_dns_records w domain =
     get_dns_records_loop w domain (map fst initial_records) (initial_records, [])"

text \<open>The value a record type ends with: the answers, or the empty list it started with.\<close>

definition answers_or_empty :: "world \<Rightarrow> string \<Rightarrow> string \<Rightarrow> string list" where
  "answers_or_empty w domain record_type =
     (case dns_resolve w domain record_type of Inr answers \<Rightarrow> answers | Inl e \<Rightarrow> [])"

section \<open>\<open>check_zone_transfer\<close>\<close>

text \<open>\<open>str(ns).rstrip('.')\<close>: every trailing dot is removed.\<close>

definition rstrip_dot :: "string \<Rightarrow> string" where
  "rstrip_dot s = rev (dropWhile (\<lambda>c. c = CHR ''.'') (rev s))"

text \<open>
  The loop over \<open>ns_records\<close>. The list \<open>zone_data\<close> is created once, before the loop,
  and every attempt appends to it: an attempt that raises is followed by the next
  nameserver (\<open>except Exception: continue\<close>) with the names it had appended still in
  \<open>zone_data\<close>; the first attempt that completes returns \<open>zone_data\<close> at once; after
  the last nameserver the function returns the literal \<open>[]\<close>, not \<open>zone_data\<close>.
\<close>

fun try_nameservers ::
  "world \<Rightarrow> string \<Rightarrow> string list \<Rightarrow> string list \<Rightarrow> event list \<Rightarrow>
   string list \<times> event list" where
  "try_nameservers w domain [] zone_data evs = ([], evs)"
| "try_nameservers w domain (ns # rest) zone_data evs =
     (let ns_name = rstrip_dot ns in
      case xfr_attempt w ns_name domain of
        Completes names \<Rightarrow> (zone_data @ names, evs @ [Xfr ns_name domain])
      | Fails names e \<Rightarrow>
          try_nameservers w domain rest (zone_data @ names) (evs @ [Xfr ns_name domain]))"

definition check_zone_transfer :: "world \<Rightarrow> string \<Rightarrow> string list \<times> event list" where
  "check_zone_transfer w domain =
     (case dns_resolve w domain ''NS'' of
        Inl e \<Rightarrow> ([], [DnsResolve domain ''NS''])
      | Inr ns_records \<Rightarrow>
          try_nameservers w domain ns_records [] [DnsResolve domain ''NS''])"

text \<open>
  For the statements about the probe: whether the attempt on a nameserver completes, the
  names the attempt appends to \<open>zone_data\<close>, and the transfers attempted for a list of
  nameservers.
\<close>

definition completes :: "world \<Rightarrow> string \<Rightarrow> string \<Rightarrow> bool" where
  "completes w d ns =
     (case xfr_attempt w (rstrip_dot ns) d of
        Completes names \<Rightarrow> True | Fails names e \<Rightarrow> False)"

definition appended :: "world \<Rightarrow> string \<Rightarrow> string \<Rightarrow> string list" where
  "appended w d ns =
     (case xfr_attempt w (rstrip_dot ns) d of
        Completes names \<Rightarrow> names | Fails names e \<Rightarrow> names)"

definition contacted :: "string \<Rightarrow> string list \<Rightarrow> event list" where
  "contacted d nss = map (\<lambda>ns. Xfr (rstrip_dot ns) d) nss"

section \<open>\<open>brute_force_subdomains\<close>\<close>

text \<open>An entry of \<open>found_subdomains\<close>: the dictionary with the keys subdomain, ips, type.\<close>

record found =
  subdomain :: string
  ips :: "string list"
  type :: string

text \<open>
  What one run of \<open>check_subdomain\<close> does to \<open>found_subdomains\<close>: it appends one entry
  (\<open>Resolved\<close>) or leaves the list as it is (\<open>Unresolved\<close>).
\<close>

datatype resolution_outcome = Resolved found | Unresolved

text \<open>
  The \<open>try\<close> block of \<open>check_subdomain\<close>, with the calls it makes. The construction of
  the resolver is inside the block, so \<open>except Exception: pass\<close> catches its failure as
  it catches a failed lookup.
\<close>

definition check_subdomain :: "world \<Rightarrow> string \<Rightarrow> string \<Rightarrow> resolution_outcome \<times> event list" where
  "check_subdomain w domain sub =
     (let full_domain = sub @ ''.'' @ domain in
      case new_resolver w of
        Some e \<Rightarrow> (Unresolved, [NewResolver])
      | None \<Rightarrow>
          (case resolver_resolve w full_domain ''A'' of
             Inl e \<Rightarrow> (Unresolved, [NewResolver, ResolverResolve full_domain ''A''])
           | Inr addrs \<Rightarrow>
               (if addrs \<noteq> []
                then Resolved \<lparr>subdomain = full_domain, ips = addrs, type = ''A''\<rparr>
                else Unresolved,
                [NewResolver, ResolverResolve full_domain ''A''])))"

fun append_outcome :: "resolution_outcome \<Rightarrow> found list \<Rightarrow> found list" where
  "append_outcome (Resolved entry) acc = acc @ [entry]"
| "append_outcome Unresolved acc = acc"

text \<open>
  The state of the batch: the counter of the \<open>asyncio.Semaphore\<close>, the list
  \<open>found_subdomains\<close> and the events so far.
\<close>

record bf_state =
  sem_value :: int
  found_subdomains :: "found list"
  events :: "event list"

text \<open>
  \<open>asyncio.gather\<close> wraps the coroutines in tasks and the event loop starts them in the
  order of the wordlist. A task runs until it awaits something that is not ready. Between
  entering and leaving \<open>async with semaphore\<close> the coroutine awaits nothing
  (\<open>resolver.resolve\<close> is a blocking call), and acquiring a semaphore whose counter is
  positive does not suspend the task: so a task that finds the counter positive runs to
  its end before the next one starts. A task that finds the counter at zero waits for a
  release; every task started before it has already released, so no release comes and
  \<open>gather\<close> never returns: this is the value \<open>None\<close>.
\<close>

fun run_tasks :: "world \<Rightarrow> string \<Rightarrow> string list \<Rightarrow> bf_state \<Rightarrow> bf_state option" where
  "run_tasks w domain [] s = Some s"
| "run_tasks w domain (sub # rest) s =
     (if sem_value s = 0 then None
      else
        let s1 = s\<lparr>sem_value := sem_value s - 1, events := events s @ [Acquired sub]\<rparr>;
            (out, calls) = check_subdomain w domain sub;
            s2 = s1\<lparr>found_subdomains := append_outcome out (found_subdomains s1),
                    events := events s1 @ calls\<rparr>;
            s3 = s2\<lparr>sem_value := sem_value s2 + 1, events := events s2 @ [Released sub]\<rparr>
        in run_tasks w domain rest s3)"

text \<open>
  \<open>asyncio.Semaphore(threads)\<close> raises \<open>ValueError\<close> for a negative value. The result
  is \<open>found_subdomains\<close>, here with the events of the batch.
\<close>

definition brute_force_subdomains ::
  "world \<Rightarrow> string \<Rightarrow> string list \<Rightarrow> int \<Rightarrow> (found list \<times> event list) outcome" where
  "brute_force_subdomains w domain wordlist threads =
     (if threads < 0 then Raises ValueError
      else
        case run_tasks w domain wordlist
               \<lparr>sem_value = threads, found_subdomains = [], events = []\<rparr> of
          None \<Rightarrow> Hangs
        | Some s \<Rightarrow> Returns (found_subdomains s, events s))"

text \<open>
  The number of lookups in flight after a sequence of events: the tasks that have entered
  the guarded block and not yet left it.
\<close>

fun in_flight :: "event list \<Rightarrow> int" where
  "in_flight [] = 0"
| "in_flight (Acquired sub # evs) = in_flight evs + 1"
| "in_flight (Released sub # evs) = in_flight evs - 1"
| "in_flight (ev # evs) = in_flight evs"

text \<open>The candidates admitted so far, in the order of their admission.\<close>

fun admitted :: "event list \<Rightarrow> string list" where
  "admitted [] = []"
| "admitted (Acquired sub # evs) = sub # admitted evs"
| "admitted (ev # evs) = admitted evs"

text \<open>The candidates whose lookup has completed, in the order of completion.\<close>

fun completed :: "event list \<Rightarrow> string list" where
  "completed [] = []"
| "completed (Released sub # evs) = sub # completed evs"
| "completed (ev # evs) = completed evs"

text \<open>The names sent to the resolver for an A record, in the order of the queries.\<close>

fun queried :: "event list \<Rightarrow> string list" where
  "queried [] = []"
| "queried (ResolverResolve name rdtype # evs) = name # queried evs"
| "queried (ev # evs) = queried evs"

text \<open>
  For the statements about the batch: the outcome of every candidate taken alone, the
  entries that a list of outcomes appends, and the events of one task and of the tasks
  of a wordlist run one after the other.
\<close>

definition outcomes :: "world \<Rightarrow> string \<Rightarrow> string list \<Rightarrow> resolution_outcome list" where
  "outcomes w d wordlist = map (\<lambda>sub. fst (check_subdomain w d sub)) wordlist"

fun resolved_entries :: "resolution_outcome list \<Rightarrow> found list" where
  "resolved_entries [] = []"
| "resolved_entries (Resolved entry # outs) = entry # resolved_entries outs"
| "resolved_entries (Unresolved # outs) = resolved_entries outs"

fun is_resolved :: "resolution_outcome \<Rightarrow> bool" where
  "is_resolved (Resolved entry) = True"
| "is_resolved Unresolved = False"

text \<open>
  The value list that the lookup of a candidate gives: the answer of the resolver for its
  fully-qualified name, and no value when the client cannot be constructed or the lookup
  raises.
\<close>

definition addresses :: "world \<Rightarrow> string \<Rightarrow> string \<Rightarrow> string list" where
  "addresses w d sub =
     (case new_resolver w of
        Some e \<Rightarrow> []
      | None \<Rightarrow>
          (case resolver_resolve w (sub @ ''.'' @ d) ''A'' of
             Inl e \<Rightarrow> []
           | Inr values \<Rightarrow> values))"

definition task_events :: "world \<Rightarrow> string \<Rightarrow> string \<Rightarrow> event list" where
  "task_events w d sub = Acquired sub # snd (check_subdomain w d sub) @ [Released sub]"

definition batch_events :: "world \<Rightarrow> string \<Rightarrow> string list \<Rightarrow> event list" where
  "batch_events w d wordlist = concat (map (task_events w d) wordlist)"

section \<open>\<open>load_wordlist\<close>\<close>

text \<open>
  A string is a list of code points below 256. \<open>str.strip()\<close> removes the leading and
  trailing white space; in this range Python's white space is 9 to 13, 28 to 32, 133
  and 160. An empty string is false in a condition.
\<close>

definition py_isspace :: "char \<Rightarrow> bool" where
  "py_isspace c =
     (let n = (of_char c :: nat) in
      (9 \<le> n \<and> n \<le> 13) \<or> (28 \<le> n \<and> n \<le> 32) \<or> n = 133 \<or> n = 160)"

definition strip :: "string \<Rightarrow> string" where
  "strip s = rev (dropWhile py_isspace (rev (dropWhile py_isspace s)))"

definition default_wordlist :: "string list" where
  "default_wordlist =
     [''www'', ''mail'', ''ftp'', ''admin'', ''api'', ''blog'', ''shop'', ''dev'', ''test'']"

text \<open>Only \<open>FileNotFoundError\<close> is caught; any other exception leaves the function.\<close>

definition load_wordlist :: "world \<Rightarrow> string \<Rightarrow> exn + string list" where
  "load_wordlist w filename =
     (case open_file w filename of
        Lines ls \<Rightarrow> Inr (map strip (filter (\<lambda>line. strip line \<noteq> []) ls))
      | ReadRaises e \<Rightarrow> (if e = FileNotFoundError then Inr default_wordlist else Inl e))"

text \<open>A line that holds nothing but white space.\<close>

definition blank :: "string \<Rightarrow> bool" where
  "blank line = list_all py_isspace line"

section \<open>\<open>run_scan\<close>\<close>

record scan_results =
  domain :: string
  dns_records :: records
  subdomains :: "found list"
  zone_transfer :: "string list"

record stats =
  total_queries :: int
  successful :: int
  failed :: int

text \<open>
  \<open>self.load_wordlist(wordlist_file) if wordlist_file else self.load_wordlist('subdomains.txt')\<close>:
  \<open>None\<close> and the empty string are false.
\<close>

definition scan_wordlist :: "world \<Rightarrow> string option \<Rightarrow> exn + string list" where
  "scan_wordlist w wordlist_file =
     (case wordlist_file of
        None \<Rightarrow> load_wordlist w ''subdomains.txt''
      | Some filename \<Rightarrow>
          (if filename \<noteq> [] then load_wordlist w filename
           else load_wordlist w ''subdomains.txt''))"

text \<open>
  The scan returns \<open>results\<close> and leaves the counters in \<open>self.stats\<close>: the model
  returns both. An exception of \<open>load_wordlist\<close> or of \<open>brute_force_subdomains\<close> is
  not caught in \<open>run_scan\<close>.
\<close>

definition run_scan ::
  "world \<Rightarrow> string \<Rightarrow> string option \<Rightarrow> int \<Rightarrow> (scan_results \<times> stats) outcome" where
  "run_scan w target wordlist_file threads =
     (let records = fst (get_dns_records w target);
          zone_data = fst (check_zone_transfer w target)
      in case scan_wordlist w wordlist_file of
           Inl e \<Rightarrow> Raises e
         | Inr wordlist \<Rightarrow>
             (let total = int (length wordlist)
              in case brute_force_subdomains w target wordlist threads of
                   Raises e \<Rightarrow> Raises e
                 | Hangs \<Rightarrow> Hangs
                 | Returns (subs, evs) \<Rightarrow>
                     Returns
                       (\<lparr>domain = target, dns_records = records,
                         subdomains = subs, zone_transfer = zone_data\<rparr>,
                        \<lparr>total_queries = total,
                         successful = int (length subs),
                         failed = total - int (length subs)\<rparr>)))"

text \<open>
  What a scan that runs its batch over a given wordlist returns, and the counters it
  leaves.
\<close>

definition scan_over :: "world \<Rightarrow> string \<Rightarrow> string list \<Rightarrow> scan_results \<times> stats" where
  "scan_over w d wordlist =
     (\<lparr>domain = d, dns_records = fst (get_dns_records w d),
       subdomains = resolved_entries (outcomes w d wordlist),
       zone_transfer = fst (check_zone_transfer w d)\<rparr>,
      \<lparr>total_queries = int (length wordlist),
       successful = int (length (resolved_entries (outcomes w d wordlist))),
       failed = int (length wordlist) - int (length (resolved_entries (outcomes w d wordlist)))\<rparr>)"

section \<open>Example worlds\<close>

text \<open>
  Concrete collaborators on which the statements below are evaluated: a zone with three
  nameservers of which the first refuses the transfer, a resolver that answers for
  \<open>www\<close>, answers with no address for \<open>api\<close>, times out for \<open>mail\<close> and knows no other
  name, and a file system with three files.
\<close>

definition example_world :: world where
  "example_world =
     \<lparr>dns_resolve = (\<lambda>name rdtype.
        if rdtype = ''NS'' then Inr [''ns1.example.com.'', ''ns2.example.com.'', ''ns3.example.com.'']
        else if rdtype = ''A'' then Inr [''192.0.2.1'']
        else Inl NoAnswer),
      new_resolver = None,
      resolver_resolve = (\<lambda>name rdtype.
        if name = ''www.example.com'' then Inr [''192.0.2.10'']
        else if name = ''api.example.com'' then Inr []
        else if name = ''mail.example.com'' then Inl LifetimeTimeout
        else Inl NXDOMAIN),
      xfr_attempt = (\<lambda>ns_name zone.
        if ns_name = ''ns2.example.com'' then Completes [''a'', ''b'']
        else if ns_name = ''ns3.example.com'' then Completes [''c'']
        else Fails [] TransferError),
      open_file = (\<lambda>filename.
        if filename = ''words.txt'' then Lines [''www\<newline>'', ''\<newline>'', ''  api  \<newline>'', ''   '', ''mail'']
        else if filename = ''locked.txt'' then ReadRaises PermissionError
        else if filename = ''subdomains.txt'' then Lines [''www\<newline>'', ''dev\<newline>'']
        else ReadRaises FileNotFoundError)\<rparr>"

definition no_resolver_world :: world where
  "no_resolver_world = example_world\<lparr>new_resolver := Some NoResolverConfiguration\<rparr>"

definition no_files_world :: world where
  "no_files_world = example_world\<lparr>open_file := (\<lambda>filename. ReadRaises FileNotFoundError)\<rparr>"


text \<open>A world in which every DNS query times out.\<close>

definition silent_world :: world where
  "silent_world =
     example_world\<lparr>dns_resolve := (\<lambda>name rdtype. Inl LifetimeTimeout),
                    resolver_resolve := (\<lambda>name rdtype. Inl LifetimeTimeout)\<rparr>"

section \<open>Properties of \<open>get_dns_records\<close>\<close>

lemma dict_set_keys: "k \<in> fst ` set kvs \<Longrightarrow> map fst (dict_set k v kvs) = map fst kvs"
  by (induction kvs) force+

lemma dict_set_map_of: "map_of (dict_set k v kvs) = (map_of kvs)(k \<mapsto> v)"
  by (induction kvs) (auto simp: fun_eq_iff)

lemma get_dns_records_loop_keys:
  "set rts \<subseteq> fst ` set records \<Longrightarrow>
   map fst (fst (get_dns_records_loop w d rts (records, evs))) = map fst records"
proof (induction rts arbitrary: records evs)
  case Nil
  then show ?case by simp
next
  case (Cons rt rts)
  have rt: "rt \<in> fst ` set records" using Cons.prems by simp
  have keep: "map fst (dict_set rt v records) = map fst records" for v
    using rt by (rule dict_set_keys)
  have sub: "set rts \<subseteq> fst ` set (dict_set rt v records)" for v
  proof -
    have "fst ` set (dict_set rt v records) = set (map fst (dict_set rt v records))" by simp
    also have "\<dots> = fst ` set records" using keep [of v] by simp
    finally show ?thesis using Cons.prems by simp
  qed
  show ?case
  proof (cases "dns_resolve w d rt")
    case (Inl e)
    then show ?thesis using Cons.IH [of records] Cons.prems by simp
  next
    case (Inr answers)
    then show ?thesis using Cons.IH [OF sub [of answers]] keep [of answers] by simp
  qed
qed

lemma get_dns_records_loop_events:
  "snd (get_dns_records_loop w d rts (records, evs)) = evs @ map (DnsResolve d) rts"
  by (induction rts arbitrary: records evs) (auto split: sum.splits)

lemma get_dns_records_loop_value:
  "distinct rts \<Longrightarrow>
   map_of (fst (get_dns_records_loop w d rts (records, evs))) rt =
     (if rt \<in> set rts
      then (case dns_resolve w d rt of
              Inr answers \<Rightarrow> Some answers | Inl e \<Rightarrow> map_of records rt)
      else map_of records rt)"
proof (induction rts arbitrary: records evs)
  case Nil
  then show ?case by simp
next
  case (Cons r rts)
  then show ?case
    by (cases "dns_resolve w d r") (auto simp: dict_set_map_of split: sum.splits)
qed

lemma alist_determined:
  "map fst kvs = ks \<Longrightarrow> distinct ks \<Longrightarrow> (\<And>k. k \<in> set ks \<Longrightarrow> map_of kvs k = Some (f k)) \<Longrightarrow>
   kvs = map (\<lambda>k. (k, f k)) ks"
proof (induction kvs arbitrary: ks)
  case Nil
  then show ?case by simp
next
  case (Cons kv kvs)
  obtain k v where kv: "kv = (k, v)" by (cases kv)
  obtain ks' where ks: "ks = k # ks'" and ks': "map fst kvs = ks'"
    using Cons.prems(1) kv by auto
  have v: "v = f k" using Cons.prems(3) [of k] ks kv by simp
  have rest: "map_of kvs k' = Some (f k')" if "k' \<in> set ks'" for k'
  proof -
    have "k' \<noteq> k" using that Cons.prems(2) ks by auto
    then show ?thesis using Cons.prems(3) [of k'] that ks kv by simp
  qed
  have "kvs = map (\<lambda>k. (k, f k)) ks'"
    using Cons.IH [OF ks' _ rest] Cons.prems(2) ks by simp
  then show ?case using ks kv v by simp
qed

text \<open>
  C4. For every target d and every resolver, the snapshot returned by
  \<open>get_dns_records\<close> has exactly the six keys A, AAAA, CNAME, MX, TXT, NS, each once
  and in this order; every key holds the answers of its own query, or the empty list
  when that query failed; and all six queries are issued, one per record type, whatever
  the other ones did.
\<close>

theorem get_dns_records_six_keys:
  "fst (get_dns_records w d) =
     map (\<lambda>rt. (rt, answers_or_empty w d rt))
       [''A'', ''AAAA'', ''CNAME'', ''MX'', ''TXT'', ''NS'']
   \<and> fst ` set (fst (get_dns_records w d)) =
     {''A'', ''AAAA'', ''CNAME'', ''MX'', ''TXT'', ''NS''}
   \<and> snd (get_dns_records w d) =
     map (DnsResolve d) [''A'', ''AAAA'', ''CNAME'', ''MX'', ''TXT'', ''NS'']"
proof -
  let ?keys = "[''A'', ''AAAA'', ''CNAME'', ''MX'', ''TXT'', ''NS'']"
  have keys: "map fst initial_records = ?keys" by (simp add: initial_records_def)
  have sub: "set (map fst initial_records) \<subseteq> fst ` set initial_records" by simp
  have k1: "map fst (fst (get_dns_records w d)) = ?keys"
    unfolding get_dns_records_def
    using get_dns_records_loop_keys [OF sub, of w d "[]"] keys by simp
  have k2: "fst ` set (fst (get_dns_records w d)) = set ?keys"
  proof -
    have "fst ` set (fst (get_dns_records w d)) =
          set (map fst (fst (get_dns_records w d)))" by simp
    then show ?thesis unfolding k1 .
  qed
  have k3: "snd (get_dns_records w d) = map (DnsResolve d) ?keys"
    unfolding get_dns_records_def get_dns_records_loop_events keys by simp
  have dist: "distinct (map fst initial_records)" unfolding keys by simp
  have dist': "distinct ?keys" by simp
  have k4: "map_of (fst (get_dns_records w d)) rt = Some (answers_or_empty w d rt)"
    if "rt \<in> set ?keys" for rt
  proof -
    have init: "map_of initial_records rt = Some []"
      using that by (auto simp: initial_records_def)
    show ?thesis
      unfolding get_dns_records_def
      using get_dns_records_loop_value [OF dist, of w d initial_records "[]" rt] that init
      by (simp add: keys answers_or_empty_def split: sum.splits)
  qed
  have k5: "fst (get_dns_records w d) =
            map (\<lambda>rt. (rt, answers_or_empty w d rt)) ?keys"
    using k1 dist' k4 by (rule alist_determined)
  show ?thesis using k5 k2 k3 by simp
qed

text \<open>When every query times out, the snapshot is the six keys with empty lists.\<close>

lemma get_dns_records_all_queries_fail:
  "get_dns_records silent_world ''example.com'' =
     ([(''A'', []), (''AAAA'', []), (''CNAME'', []), (''MX'', []), (''TXT'', []), (''NS'', [])],
      [DnsResolve ''example.com'' ''A'', DnsResolve ''example.com'' ''AAAA'',
       DnsResolve ''example.com'' ''CNAME'', DnsResolve ''example.com'' ''MX'',
       DnsResolve ''example.com'' ''TXT'', DnsResolve ''example.com'' ''NS''])"
  by (simp add: get_dns_records_def initial_records_def silent_world_def)

section \<open>Properties of \<open>check_zone_transfer\<close>\<close>

lemma try_nameservers_find:
  "try_nameservers w d nss zone_data evs =
     (case find (completes w d) nss of
        None \<Rightarrow> ([], evs @ contacted d nss)
      | Some ns \<Rightarrow>
          (zone_data @
           concat (map (appended w d) (takeWhile (\<lambda>n. \<not> completes w d n) nss)) @
           appended w d ns,
           evs @ contacted d (takeWhile (\<lambda>n. \<not> completes w d n) nss @ [ns])))"
proof (induction nss arbitrary: zone_data evs)
  case Nil
  then show ?case by (simp add: contacted_def)
next
  case (Cons ns nss)
  show ?case
  proof (cases "xfr_attempt w (rstrip_dot ns) d")
    case (Completes names)
    then have yes: "completes w d ns" and app: "appended w d ns = names"
      by (simp_all add: completes_def appended_def)
    show ?thesis using Completes yes app by (simp add: contacted_def)
  next
    case (Fails names e)
    then have no: "\<not> completes w d ns" and app: "appended w d ns = names"
      by (simp_all add: completes_def appended_def)
    show ?thesis
      using Fails no app Cons.IH [of "zone_data @ names" "evs @ [Xfr (rstrip_dot ns) d]"]
      by (simp add: contacted_def split: option.splits)
  qed
qed

text \<open>
  What the probe returns in every world. When the NS lookup fails: the empty result, and
  no transfer is attempted. Otherwise the nameservers are tried in the order of the NS
  answer, up to the first one whose attempt completes, and no later one is contacted;
  the result is \<open>zone_data\<close> at that moment: the names appended by the attempts that
  raised before, followed by the names of the nameserver whose attempt completes. When
  no attempt completes, every nameserver has been tried once and the result is empty.
\<close>

lemma check_zone_transfer_result:
  "check_zone_transfer w d =
     (case dns_resolve w d ''NS'' of
        Inl e \<Rightarrow> ([], [DnsResolve d ''NS''])
      | Inr nss \<Rightarrow>
          (case find (completes w d) nss of
             None \<Rightarrow> ([], DnsResolve d ''NS'' # contacted d nss)
           | Some ns \<Rightarrow>
               (concat (map (appended w d) (takeWhile (\<lambda>n. \<not> completes w d n) nss)) @
                appended w d ns,
                DnsResolve d ''NS'' #
                contacted d (takeWhile (\<lambda>n. \<not> completes w d n) nss @ [ns]))))"
  unfolding check_zone_transfer_def
  by (simp add: try_nameservers_find split: sum.splits option.splits)

text \<open>
  When every attempt that raises does so before it has appended a name (a refused or
  broken transfer), the result is what the first nameserver whose attempt completes
  exposes, and nothing else.
\<close>

lemma check_zone_transfer_first_completing:
  assumes ns: "dns_resolve w d ''NS'' = Inr nss"
    and clean: "\<And>n. n \<in> set nss \<Longrightarrow> \<not> completes w d n \<Longrightarrow> appended w d n = []"
  shows "check_zone_transfer w d =
     (case find (completes w d) nss of
        None \<Rightarrow> ([], DnsResolve d ''NS'' # contacted d nss)
      | Some n \<Rightarrow>
          (appended w d n,
           DnsResolve d ''NS'' #
           contacted d (takeWhile (\<lambda>n. \<not> completes w d n) nss @ [n])))"
proof -
  have "appended w d n = []" if "n \<in> set (takeWhile (\<lambda>n. \<not> completes w d n) nss)" for n
    using that clean [of n] set_takeWhileD [of n "\<lambda>n. \<not> completes w d n" nss] by blast
  then have "concat (map (appended w d) (takeWhile (\<lambda>n. \<not> completes w d n) nss)) = []"
    by simp
  then show ?thesis
    unfolding check_zone_transfer_result ns by (simp split: option.splits)
qed


text \<open>
  Three nameservers: the first refuses, the second accepts and exposes a and b, the third
  would accept and expose c. The result is a, b, and the third is not contacted. When the
  NS lookup itself fails, the result is empty and no transfer is attempted.
\<close>

lemma check_zone_transfer_second_of_three:
  "check_zone_transfer example_world ''example.com'' =
     ([''a'', ''b''],
      [DnsResolve ''example.com'' ''NS'', Xfr ''ns1.example.com'' ''example.com'',
       Xfr ''ns2.example.com'' ''example.com''])"
  by (simp add: check_zone_transfer_def example_world_def rstrip_dot_def)

lemma check_zone_transfer_ns_lookup_fails:
  "check_zone_transfer silent_world ''example.com'' = ([], [DnsResolve ''example.com'' ''NS''])"
  by (simp add: check_zone_transfer_def silent_world_def)

section \<open>Properties of \<open>brute_force_subdomains\<close>\<close>

lemma append_outcome_entries:
  "append_outcome out acc = acc @ resolved_entries [out]"
  by (cases out) auto

lemma resolved_entries_append:
  "resolved_entries (xs @ ys) = resolved_entries xs @ resolved_entries ys"
  by (induction xs rule: resolved_entries.induct) auto

lemma run_tasks_free:
  "0 < sem_value s \<Longrightarrow>
   run_tasks w d wordlist s =
     Some (s\<lparr>found_subdomains := found_subdomains s @ resolved_entries (outcomes w d wordlist),
             events := events s @ batch_events w d wordlist\<rparr>)"
proof (induction wordlist arbitrary: s)
  case Nil
  then show ?case by (simp add: outcomes_def batch_events_def)
next
  case (Cons sub rest)
  obtain out calls where cs: "check_subdomain w d sub = (out, calls)"
    by (cases "check_subdomain w d sub")
  let ?s3 = "s\<lparr>found_subdomains := append_outcome out (found_subdomains s),
               events := events s @ [Acquired sub] @ calls @ [Released sub]\<rparr>"
  have step: "run_tasks w d (sub # rest) s = run_tasks w d rest ?s3"
    using Cons.prems cs by (simp add: Let_def)
  have pos: "0 < sem_value ?s3" using Cons.prems by simp
  have ents: "resolved_entries (outcomes w d (sub # rest)) =
              resolved_entries [out] @ resolved_entries (outcomes w d rest)"
    using cs resolved_entries_append [of "[out]" "outcomes w d rest"]
    by (simp add: outcomes_def)
  have evs: "batch_events w d (sub # rest) =
             [Acquired sub] @ calls @ [Released sub] @ batch_events w d rest"
    using cs by (simp add: batch_events_def task_events_def)
  show ?case
    unfolding step Cons.IH [OF pos] ents evs
    by (simp add: append_outcome_entries)
qed

lemma run_tasks_locked:
  "sem_value s = 0 \<Longrightarrow> wordlist \<noteq> [] \<Longrightarrow> run_tasks w d wordlist s = None"
  by (cases wordlist) auto

lemma brute_force_returns:
  "0 < threads \<Longrightarrow>
   brute_force_subdomains w d wordlist threads =
     Returns (resolved_entries (outcomes w d wordlist), batch_events w d wordlist)"
  unfolding brute_force_subdomains_def
  by (simp add: run_tasks_free)

lemma admitted_append: "admitted (xs @ ys) = admitted xs @ admitted ys"
  by (induction xs rule: admitted.induct) auto

lemma completed_append: "completed (xs @ ys) = completed xs @ completed ys"
  by (induction xs rule: completed.induct) auto

lemma queried_append: "queried (xs @ ys) = queried xs @ queried ys"
  by (induction xs rule: queried.induct) auto

lemma in_flight_append: "in_flight (xs @ ys) = in_flight xs + in_flight ys"
  by (induction xs rule: in_flight.induct) auto

lemma calls_cases:
  "snd (check_subdomain w d sub) =
     (if new_resolver w = None then [NewResolver, ResolverResolve (sub @ ''.'' @ d) ''A'']
      else [NewResolver])"
  by (auto simp: check_subdomain_def Let_def split: option.splits sum.splits)

lemma admitted_task: "admitted (task_events w d sub) = [sub]"
  by (simp add: task_events_def calls_cases)

lemma completed_task: "completed (task_events w d sub) = [sub]"
  by (simp add: task_events_def calls_cases)

lemma queried_task:
  "queried (task_events w d sub) = (if new_resolver w = None then [sub @ ''.'' @ d] else [])"
  by (simp add: task_events_def calls_cases)

lemma admitted_batch: "admitted (batch_events w d wordlist) = wordlist"
  by (induction wordlist) (simp_all add: batch_events_def admitted_append admitted_task)

lemma completed_batch: "completed (batch_events w d wordlist) = wordlist"
  by (induction wordlist) (simp_all add: batch_events_def completed_append completed_task)

lemma queried_batch:
  "queried (batch_events w d wordlist) =
     (if new_resolver w = None then map (\<lambda>sub. sub @ ''.'' @ d) wordlist else [])"
  by (induction wordlist) (simp_all add: batch_events_def queried_append queried_task)

lemma in_flight_task: "in_flight (task_events w d sub) = 0"
  by (simp add: task_events_def calls_cases)

lemma in_flight_task_prefix:
  "0 \<le> in_flight (take n (task_events w d sub)) \<and> in_flight (take n (task_events w d sub)) \<le> 1"
  by (simp add: task_events_def calls_cases take_Cons split: nat.splits)

lemma in_flight_batch_prefix:
  "0 \<le> in_flight (take n (batch_events w d wordlist)) \<and>
   in_flight (take n (batch_events w d wordlist)) \<le> 1"
proof (induction wordlist arbitrary: n)
  case Nil
  then show ?case by (simp add: batch_events_def)
next
  case (Cons sub rest)
  have split: "batch_events w d (sub # rest) = task_events w d sub @ batch_events w d rest"
    by (simp add: batch_events_def)
  show ?case
  proof (cases "n \<le> length (task_events w d sub)")
    case True
    then show ?thesis using in_flight_task_prefix [of n w d sub] by (simp add: split)
  next
    case False
    then show ?thesis
      using Cons.IH [of "n - length (task_events w d sub)"]
      by (simp add: split in_flight_append in_flight_task)
  qed
qed

lemma task_split:
  "task_events w d x = pre @ Released sub # post \<Longrightarrow>
   post = [] \<and> sub = x \<and> admitted pre = [x]"
  by (auto simp: task_events_def calls_cases Cons_eq_append_conv split: if_splits)

lemma batch_head:
  "batch_events w d (sub # rest) = Acquired sub # tl (batch_events w d (sub # rest))"
  by (simp add: batch_events_def task_events_def)

lemma batch_progress:
  "batch_events w d wordlist = pre @ Released sub # post \<Longrightarrow>
   (case post of
      [] \<Rightarrow> admitted pre = wordlist
    | ev # evs \<Rightarrow>
        length (admitted pre) < length wordlist \<and>
        ev = Acquired (wordlist ! length (admitted pre)))"
proof (induction wordlist arbitrary: pre)
  case Nil
  then show ?case by (simp add: batch_events_def)
next
  case (Cons x rest)
  have split: "task_events w d x @ batch_events w d rest = pre @ Released sub # post"
    using Cons.prems by (simp add: batch_events_def)
  then obtain us where
    "(task_events w d x = pre @ us \<and> us @ batch_events w d rest = Released sub # post) \<or>
     (task_events w d x @ us = pre \<and> batch_events w d rest = us @ Released sub # post)"
    unfolding append_eq_append_conv2 by blast
  then show ?case
  proof
    assume a: "task_events w d x = pre @ us \<and> us @ batch_events w d rest = Released sub # post"
    show ?thesis
    proof (cases us)
      case Nil
      then have "batch_events w d rest = Released sub # post" using a by simp
      then have False by (cases rest) (simp_all add: batch_events_def task_events_def)
      then show ?thesis ..
    next
      case (Cons u us')
      then have u: "u = Released sub" and post: "post = us' @ batch_events w d rest"
        using a by simp_all
      have t: "task_events w d x = pre @ Released sub # us'" using a Cons u by simp
      from task_split [OF t] have us': "us' = []" and adm: "admitted pre = [x]" by simp_all
      show ?thesis
      proof (cases rest)
        case Nil
        then show ?thesis using post us' adm by (simp add: batch_events_def)
      next
        case (Cons y ys)
        then show ?thesis using post us' adm by (simp add: batch_events_def task_events_def)
      qed
    qed
  next
    assume b: "task_events w d x @ us = pre \<and> batch_events w d rest = us @ Released sub # post"
    then have ih: "(case post of
        [] \<Rightarrow> admitted us = rest
      | ev # evs \<Rightarrow> length (admitted us) < length rest \<and> ev = Acquired (rest ! length (admitted us)))"
      using Cons.IH [of us] by simp
    have adm: "admitted pre = x # admitted us"
      using b by (auto simp: admitted_append admitted_task)
    show ?thesis using ih adm by (cases post) simp_all
  qed
qed

lemma outcomes_append: "outcomes w d (xs @ ys) = outcomes w d xs @ outcomes w d ys"
  by (simp add: outcomes_def)

lemma outcome_cases:
  "fst (check_subdomain w d sub) =
     (case new_resolver w of
        Some e \<Rightarrow> Unresolved
      | None \<Rightarrow>
          (case resolver_resolve w (sub @ ''.'' @ d) ''A'' of
             Inl e \<Rightarrow> Unresolved
           | Inr values \<Rightarrow>
               (if values \<noteq> []
                then Resolved \<lparr>subdomain = sub @ ''.'' @ d, ips = values, type = ''A''\<rparr>
                else Unresolved)))"
  by (simp add: check_subdomain_def Let_def split: option.splits sum.splits)

lemma brute_force_cases:
  "brute_force_subdomains w d wordlist threads =
     (if threads < 0 then Raises ValueError
      else if threads = 0 \<and> wordlist \<noteq> [] then Hangs
      else Returns (resolved_entries (outcomes w d wordlist), batch_events w d wordlist))"
proof -
  consider "threads < 0" | "threads = 0" "wordlist \<noteq> []" | "threads = 0" "wordlist = []"
    | "0 < threads" by linarith
  then show ?thesis
  proof cases
    case 1
    then show ?thesis by (simp add: brute_force_subdomains_def)
  next
    case 2
    then show ?thesis by (simp add: brute_force_subdomains_def run_tasks_locked)
  next
    case 3
    then show ?thesis
      by (simp add: brute_force_subdomains_def outcomes_def batch_events_def)
  next
    case 4
    then show ?thesis using brute_force_returns [OF 4] by simp
  qed
qed

lemma resolved_entries_filter:
  "resolved_entries (outcomes w d wordlist) =
     map (\<lambda>sub. \<lparr>subdomain = sub @ ''.'' @ d, ips = addresses w d sub, type = ''A''\<rparr>)
       (filter (\<lambda>sub. addresses w d sub \<noteq> []) wordlist)"
proof (induction wordlist)
  case Nil
  then show ?case by (simp add: outcomes_def)
next
  case (Cons sub rest)
  have rest: "resolved_entries (outcomes w d (sub # rest)) =
              resolved_entries [fst (check_subdomain w d sub)] @
              resolved_entries (outcomes w d rest)"
    using resolved_entries_append [of "[fst (check_subdomain w d sub)]" "outcomes w d rest"]
    by (simp add: outcomes_def)
  have one: "resolved_entries [fst (check_subdomain w d sub)] =
             (if addresses w d sub \<noteq> []
              then [\<lparr>subdomain = sub @ ''.'' @ d, ips = addresses w d sub, type = ''A''\<rparr>]
              else [])"
    by (simp add: outcome_cases addresses_def split: option.splits sum.splits)
  show ?case unfolding rest one using Cons.IH by simp
qed

text \<open>
  C1, as stated, fails: the batch does not produce one outcome per candidate in its
  result. It returns \<open>found_subdomains\<close>, to which only a candidate whose lookup gives a
  non-empty value list appends. For the wordlist api, whose lookup gives no address, and
  a limit of 1 the result is the empty list: no entry for one candidate.
\<close>

theorem brute_force_one_outcome_per_candidate_counterexample:
  "brute_force_subdomains example_world ''example.com'' [''api''] 1 =
     Returns
      ([], [Acquired ''api'', NewResolver, ResolverResolve ''api.example.com'' ''A'',
            Released ''api''])
   \<and> length ([] :: found list) \<noteq> length [''api'']"
  by (simp add: brute_force_subdomains_def check_subdomain_def Let_def example_world_def)

text \<open>
  C1, amended. For every wordlist and every concurrency limit of at least 1 the batch
  returns, every candidate is admitted exactly once and its lookup completes exactly
  once, and, when the resolver client can be constructed, exactly one query is sent per
  candidate, for its fully-qualified name. The list returned holds the Resolved outcomes
  only: one entry, in the order of the wordlist, for every candidate whose lookup gives a
  non-empty value list, and no entry for the others, so that the number of entries and
  the number of candidates without a value add up to the length of the wordlist. For the
  empty wordlist the result is the empty list.
\<close>

theorem brute_force_returns_resolved_entries:
  "1 \<le> threads \<Longrightarrow>
   (\<exists>found.
      brute_force_subdomains w d wordlist threads = Returns (found, batch_events w d wordlist)
      \<and> found =
          map (\<lambda>sub. \<lparr>subdomain = sub @ ''.'' @ d, ips = addresses w d sub, type = ''A''\<rparr>)
            (filter (\<lambda>sub. addresses w d sub \<noteq> []) wordlist)
      \<and> length found + length (filter (\<lambda>sub. addresses w d sub = []) wordlist) =
          length wordlist)
   \<and> admitted (batch_events w d wordlist) = wordlist
   \<and> completed (batch_events w d wordlist) = wordlist
   \<and> queried (batch_events w d wordlist) =
       (if new_resolver w = None then map (\<lambda>sub. sub @ ''.'' @ d) wordlist else [])
   \<and> brute_force_subdomains w d [] threads = Returns ([], [])"
proof -
  assume t: "1 \<le> threads"
  then have pos: "0 < threads" by simp
  let ?found = "map (\<lambda>sub. \<lparr>subdomain = sub @ ''.'' @ d, ips = addresses w d sub, type = ''A''\<rparr>)
                  (filter (\<lambda>sub. addresses w d sub \<noteq> []) wordlist)"
  have r: "brute_force_subdomains w d wordlist threads =
           Returns (?found, batch_events w d wordlist)"
    using brute_force_returns [OF pos, of w d wordlist] by (simp add: resolved_entries_filter)
  have n: "length ?found + length (filter (\<lambda>sub. addresses w d sub = []) wordlist) =
           length wordlist"
    using sum_length_filter_compl [of "\<lambda>sub. addresses w d sub \<noteq> []" wordlist] by simp
  have e: "brute_force_subdomains w d [] threads = Returns ([], [])"
    using brute_force_returns [OF pos, of w d "[]"] by (simp add: outcomes_def batch_events_def)
  show ?thesis using r n e admitted_batch completed_batch queried_batch by simp
qed

theorem brute_force_returns_resolved_entries_witness:
  "(1::int) \<le> 3 \<and>
   brute_force_subdomains example_world ''example.com'' [''www'', ''api'', ''mail'', ''www''] 3 =
     Returns
      ([\<lparr>subdomain = ''www.example.com'', ips = [''192.0.2.10''], type = ''A''\<rparr>,
        \<lparr>subdomain = ''www.example.com'', ips = [''192.0.2.10''], type = ''A''\<rparr>],
       [Acquired ''www'', NewResolver, ResolverResolve ''www.example.com'' ''A'', Released ''www'',
        Acquired ''api'', NewResolver, ResolverResolve ''api.example.com'' ''A'', Released ''api'',
        Acquired ''mail'', NewResolver, ResolverResolve ''mail.example.com'' ''A'', Released ''mail'',
        Acquired ''www'', NewResolver, ResolverResolve ''www.example.com'' ''A'', Released ''www''])
   \<and> filter (\<lambda>sub. addresses example_world ''example.com'' sub = [])
         [''www'', ''api'', ''mail'', ''www''] = [''api'', ''mail'']"
proof -
  have h: "(1::int) \<le> 3" by simp
  have a: "addresses example_world ''example.com'' ''www'' = [''192.0.2.10'']"
          "addresses example_world ''example.com'' ''api'' = []"
          "addresses example_world ''example.com'' ''mail'' = []"
    by (simp_all add: addresses_def example_world_def)
  have b: "batch_events example_world ''example.com'' [''www'', ''api'', ''mail'', ''www''] =
       [Acquired ''www'', NewResolver, ResolverResolve ''www.example.com'' ''A'', Released ''www'',
        Acquired ''api'', NewResolver, ResolverResolve ''api.example.com'' ''A'', Released ''api'',
        Acquired ''mail'', NewResolver, ResolverResolve ''mail.example.com'' ''A'', Released ''mail'',
        Acquired ''www'', NewResolver, ResolverResolve ''www.example.com'' ''A'', Released ''www'']"
    by (simp add: batch_events_def task_events_def check_subdomain_def Let_def example_world_def)
  show ?thesis
    using brute_force_returns_resolved_entries
            [OF h, of example_world "''example.com''" "[''www'', ''api'', ''mail'', ''www'']"]
    unfolding b by (simp add: a)
qed

text \<open>
  C2. In a batch with a concurrency limit of at least 1, a candidate \<open>L\<close> anywhere in the
  wordlist contributes the entry with its fully-qualified name \<open>L.T\<close> and the value list
  when the resolution returns a non-empty list, and nothing when the resolution fails,
  returns an empty list or the client cannot be constructed. In every case the batch
  returns, and the candidates before and after \<open>L\<close> contribute what they contribute
  on their own.
\<close>

theorem check_subdomain_failure_is_local:
  "1 \<le> threads \<Longrightarrow>
   brute_force_subdomains w T (before @ L # after) threads =
     Returns
       (resolved_entries (outcomes w T before) @
        (case new_resolver w of
           Some e \<Rightarrow> []
         | None \<Rightarrow>
             (case resolver_resolve w (L @ ''.'' @ T) ''A'' of
                Inl e \<Rightarrow> []
              | Inr values \<Rightarrow>
                  (if values \<noteq> []
                   then [\<lparr>subdomain = L @ ''.'' @ T, ips = values, type = ''A''\<rparr>]
                   else []))) @
        resolved_entries (outcomes w T after),
        batch_events w T (before @ L # after))
   \<and> brute_force_subdomains w T (before @ after) threads =
     Returns
       (resolved_entries (outcomes w T before) @ resolved_entries (outcomes w T after),
        batch_events w T (before @ after))"
proof -
  assume "1 \<le> threads"
  then have pos: "0 < threads" by simp
  have mid: "resolved_entries (outcomes w T [L]) =
        (case new_resolver w of
           Some e \<Rightarrow> []
         | None \<Rightarrow>
             (case resolver_resolve w (L @ ''.'' @ T) ''A'' of
                Inl e \<Rightarrow> []
              | Inr values \<Rightarrow>
                  (if values \<noteq> []
                   then [\<lparr>subdomain = L @ ''.'' @ T, ips = values, type = ''A''\<rparr>]
                   else [])))"
    by (simp add: outcomes_def outcome_cases split: option.splits sum.splits)
  have split: "resolved_entries (outcomes w T (before @ L # after)) =
     resolved_entries (outcomes w T before) @ resolved_entries (outcomes w T [L]) @
     resolved_entries (outcomes w T after)"
    using outcomes_append [of w T before "[L] @ after"] outcomes_append [of w T "[L]" after]
    by (simp add: resolved_entries_append)
  have both: "resolved_entries (outcomes w T (before @ after)) =
     resolved_entries (outcomes w T before) @ resolved_entries (outcomes w T after)"
    by (simp add: outcomes_append resolved_entries_append)
  show ?thesis
    unfolding brute_force_returns [OF pos] split both mid by simp
qed

theorem check_subdomain_failure_is_local_witness:
  "(1::int) \<le> 10 \<and>
   brute_force_subdomains example_world ''example.com'' ([''www''] @ ''mail'' # [''www'', ''api'']) 10 =
     Returns
      ([\<lparr>subdomain = ''www.example.com'', ips = [''192.0.2.10''], type = ''A''\<rparr>,
        \<lparr>subdomain = ''www.example.com'', ips = [''192.0.2.10''], type = ''A''\<rparr>],
       batch_events example_world ''example.com'' ([''www''] @ ''mail'' # [''www'', ''api'']))
   \<and> brute_force_subdomains example_world ''example.com'' ([''mail''] @ ''www'' # [''api'']) 10 =
     Returns
      ([\<lparr>subdomain = ''www.example.com'', ips = [''192.0.2.10''], type = ''A''\<rparr>],
       batch_events example_world ''example.com'' ([''mail''] @ ''www'' # [''api'']))"
proof -
  have h: "(1::int) \<le> 10" by simp
  have o: "outcomes example_world ''example.com'' [''www''] =
             [Resolved \<lparr>subdomain = ''www.example.com'', ips = [''192.0.2.10''], type = ''A''\<rparr>]"
          "outcomes example_world ''example.com'' [''www'', ''api''] =
             [Resolved \<lparr>subdomain = ''www.example.com'', ips = [''192.0.2.10''], type = ''A''\<rparr>,
              Unresolved]"
          "outcomes example_world ''example.com'' [''mail''] = [Unresolved]"
          "outcomes example_world ''example.com'' [''api''] = [Unresolved]"
    by (simp_all add: outcomes_def check_subdomain_def Let_def example_world_def)
  have n: "new_resolver example_world = None"
          "resolver_resolve example_world (''mail'' @ ''.'' @ ''example.com'') ''A'' = Inl LifetimeTimeout"
          "resolver_resolve example_world (''www'' @ ''.'' @ ''example.com'') ''A'' = Inr [''192.0.2.10'']"
    by (simp_all add: example_world_def)
  have a: "brute_force_subdomains example_world ''example.com'' ([''www''] @ ''mail'' # [''www'', ''api'']) 10 =
     Returns
      ([\<lparr>subdomain = ''www.example.com'', ips = [''192.0.2.10''], type = ''A''\<rparr>,
        \<lparr>subdomain = ''www.example.com'', ips = [''192.0.2.10''], type = ''A''\<rparr>],
       batch_events example_world ''example.com'' ([''www''] @ ''mail'' # [''www'', ''api'']))"
    using check_subdomain_failure_is_local
            [OF h, of example_world "''example.com''" "[''www'']" "''mail''" "[''www'', ''api'']"]
    unfolding o n by simp
  have b: "brute_force_subdomains example_world ''example.com'' ([''mail''] @ ''www'' # [''api'']) 10 =
     Returns
      ([\<lparr>subdomain = ''www.example.com'', ips = [''192.0.2.10''], type = ''A''\<rparr>],
       batch_events example_world ''example.com'' ([''mail''] @ ''www'' # [''api'']))"
    using check_subdomain_failure_is_local
            [OF h, of example_world "''example.com''" "[''mail'']" "''www''" "[''api'']"]
    unfolding o n by simp
  show ?thesis using h a b by simp
qed

text \<open>
  C8. For every wordlist and every resolver, two runs of the batch whose concurrency
  limits are both at least 1 both return, and they return the same Resolved entries: the
  same set, and even the same list.
\<close>

theorem brute_force_limit_irrelevant:
  "1 \<le> c1 \<Longrightarrow> 1 \<le> c2 \<Longrightarrow>
   (\<exists>found1 evs1 found2 evs2.
      brute_force_subdomains w d wordlist c1 = Returns (found1, evs1) \<and>
      brute_force_subdomains w d wordlist c2 = Returns (found2, evs2) \<and>
      set found1 = set found2 \<and> found1 = found2)"
proof -
  assume "1 \<le> c1" and "1 \<le> c2"
  then have p1: "0 < c1" and p2: "0 < c2" by simp_all
  show ?thesis
    unfolding brute_force_returns [OF p1] brute_force_returns [OF p2] by simp
qed

theorem brute_force_limit_irrelevant_witness:
  "(1::int) \<le> 1 \<and> (1::int) \<le> 50 \<and>
   (\<exists>found1 evs1 found2 evs2.
      brute_force_subdomains example_world ''example.com'' [''api'', ''www'', ''dev''] 1 =
        Returns (found1, evs1) \<and>
      brute_force_subdomains example_world ''example.com'' [''api'', ''www'', ''dev''] 50 =
        Returns (found2, evs2) \<and>
      set found1 = set found2 \<and> found1 = found2)"
proof -
  have h1: "(1::int) \<le> 1" and h2: "(1::int) \<le> 50" by simp_all
  show ?thesis
    using brute_force_limit_irrelevant
            [OF h1 h2, of example_world "''example.com''" "[''api'', ''www'', ''dev'']"]
    by simp
qed

text \<open>
  C9. In a batch with a concurrency limit of at least 1, after every prefix of the events
  of the batch the number of lookups in flight is between 0 and the limit (it is never
  more than 1: a lookup blocks the event loop until it completes). Whenever a lookup
  completes, the next event is the admission of the next candidate of the wordlist that
  has not been admitted yet; when there is no next event, every candidate has been
  admitted.
\<close>

theorem brute_force_in_flight_bounded:
  "1 \<le> threads \<Longrightarrow>
   brute_force_subdomains w d wordlist threads =
     Returns (resolved_entries (outcomes w d wordlist), batch_events w d wordlist)
   \<and> (\<forall>n. 0 \<le> in_flight (take n (batch_events w d wordlist))
          \<and> in_flight (take n (batch_events w d wordlist)) \<le> 1
          \<and> in_flight (take n (batch_events w d wordlist)) \<le> threads)
   \<and> (\<forall>pre sub post.
          batch_events w d wordlist = pre @ Released sub # post \<longrightarrow>
          (case post of
             [] \<Rightarrow> admitted pre = wordlist
           | ev # evs \<Rightarrow>
               length (admitted pre) < length wordlist \<and>
               ev = Acquired (wordlist ! length (admitted pre))))"
proof -
  assume t: "1 \<le> threads"
  then have pos: "0 < threads" by simp
  have r: "brute_force_subdomains w d wordlist threads =
     Returns (resolved_entries (outcomes w d wordlist), batch_events w d wordlist)"
    using pos by (rule brute_force_returns)
  have b: "0 \<le> in_flight (take n (batch_events w d wordlist))
         \<and> in_flight (take n (batch_events w d wordlist)) \<le> 1
         \<and> in_flight (take n (batch_events w d wordlist)) \<le> threads" for n
    using in_flight_batch_prefix [of n w d wordlist] t by simp
  have p: "case post of
             [] \<Rightarrow> admitted pre = wordlist
           | ev # evs \<Rightarrow>
               length (admitted pre) < length wordlist \<and>
               ev = Acquired (wordlist ! length (admitted pre))"
    if "batch_events w d wordlist = pre @ Released sub # post" for pre sub post
    using that by (rule batch_progress)
  show ?thesis using r b p by blast
qed

theorem brute_force_in_flight_bounded_witness:
  "(1::int) \<le> 2 \<and>
   batch_events example_world ''example.com'' [''www'', ''api''] =
     [Acquired ''www'', NewResolver, ResolverResolve ''www.example.com'' ''A''] @
     Released ''www'' #
     [Acquired ''api'', NewResolver, ResolverResolve ''api.example.com'' ''A'', Released ''api'']
   \<and> in_flight (take 3 (batch_events example_world ''example.com'' [''www'', ''api''])) = 1
   \<and> in_flight (take 3 (batch_events example_world ''example.com'' [''www'', ''api''])) \<le> 2
   \<and> length (admitted [Acquired ''www'', NewResolver, ResolverResolve ''www.example.com'' ''A''])
       < length [''www'', ''api'']
   \<and> Acquired ''api'' =
       Acquired ([''www'', ''api''] !
         length (admitted [Acquired ''www'', NewResolver, ResolverResolve ''www.example.com'' ''A'']))"
proof -
  have h: "(1::int) \<le> 2" by simp
  have e: "batch_events example_world ''example.com'' [''www'', ''api''] =
     [Acquired ''www'', NewResolver, ResolverResolve ''www.example.com'' ''A''] @
     Released ''www'' #
     [Acquired ''api'', NewResolver, ResolverResolve ''api.example.com'' ''A'', Released ''api'']"
    by (simp add: batch_events_def task_events_def check_subdomain_def Let_def example_world_def)
  note inst = brute_force_in_flight_bounded
               [OF h, of example_world "''example.com''" "[''www'', ''api'']"]
  from inst have bound:
    "in_flight (take 3 (batch_events example_world ''example.com'' [''www'', ''api''])) \<le> 2"
    by blast
  from inst e have
    "case [Acquired ''api'', NewResolver, ResolverResolve ''api.example.com'' ''A'',
           Released ''api''] of
       [] \<Rightarrow> admitted [Acquired ''www'', NewResolver, ResolverResolve ''www.example.com'' ''A'']
               = [''www'', ''api'']
     | ev # evs \<Rightarrow>
         length (admitted [Acquired ''www'', NewResolver, ResolverResolve ''www.example.com'' ''A''])
           < length [''www'', ''api''] \<and>
         ev = Acquired ([''www'', ''api''] !
           length (admitted [Acquired ''www'', NewResolver, ResolverResolve ''www.example.com'' ''A'']))"
    by blast
  then have next_one:
    "length (admitted [Acquired ''www'', NewResolver, ResolverResolve ''www.example.com'' ''A''])
       < length [''www'', ''api'']
     \<and> Acquired ''api'' =
       Acquired ([''www'', ''api''] !
         length (admitted [Acquired ''www'', NewResolver, ResolverResolve ''www.example.com'' ''A'']))"
    by simp
  have one: "in_flight (take 3 (batch_events example_world ''example.com'' [''www'', ''api''])) = 1"
    unfolding e by (simp add: numeral_3_eq_3)
  show ?thesis using h e one bound next_one by blast
qed

section \<open>Properties of \<open>load_wordlist\<close>\<close>

lemma strip_empty_iff: "strip s = [] \<longleftrightarrow> blank s"
proof -
  have "strip s = [] \<longleftrightarrow> dropWhile py_isspace (rev (dropWhile py_isspace s)) = []"
    by (simp add: strip_def)
  also have "\<dots> \<longleftrightarrow> (\<forall>c \<in> set (dropWhile py_isspace s). py_isspace c)"
    by (simp add: dropWhile_eq_Nil_conv)
  also have "\<dots> \<longleftrightarrow> dropWhile py_isspace s = []"
  proof
    assume all: "\<forall>c \<in> set (dropWhile py_isspace s). py_isspace c"
    show "dropWhile py_isspace s = []"
    proof (rule ccontr)
      assume ne: "dropWhile py_isspace s \<noteq> []"
      then have "\<not> py_isspace (hd (dropWhile py_isspace s))" by (rule hd_dropWhile)
      moreover have "hd (dropWhile py_isspace s) \<in> set (dropWhile py_isspace s)"
        using ne by simp
      ultimately show False using all by blast
    qed
  next
    assume e: "dropWhile py_isspace s = []"
    show "\<forall>c \<in> set (dropWhile py_isspace s). py_isspace c" unfolding e by simp
  qed
  also have "\<dots> \<longleftrightarrow> blank s"
    by (simp add: dropWhile_eq_Nil_conv blank_def list_all_iff)
  finally show ?thesis .
qed

lemma load_wordlist_cases:
  "load_wordlist w filename =
     (case open_file w filename of
        Lines ls \<Rightarrow> Inr (map strip (filter (\<lambda>line. \<not> blank line) ls))
      | ReadRaises e \<Rightarrow> (if e = FileNotFoundError then Inr default_wordlist else Inl e))"
  by (simp add: load_wordlist_def strip_empty_iff split: file_read.splits)

text \<open>
  C7, as stated, fails: only a missing file is recovered. A file that exists and cannot
  be read raises (here \<open>PermissionError\<close>), and the default list is not returned.
\<close>

theorem load_wordlist_unreadable_counterexample:
  "open_file example_world ''locked.txt'' = ReadRaises PermissionError
   \<and> load_wordlist example_world ''locked.txt'' = Inl PermissionError
   \<and> load_wordlist example_world ''locked.txt'' \<noteq> Inr default_wordlist"
  by (simp add: load_wordlist_def example_world_def)

text \<open>
  C7, amended. Loading a wordlist from a file that can be read returns one label per
  line that is not blank (not made of white space only), the line with its leading and
  trailing white space removed, in the order of the file. When the file does not exist
  (\<open>FileNotFoundError\<close>) the embedded default list www, mail, ftp, admin, api, blog,
  shop, dev, test is returned instead of raising. Any other exception of the read leaves
  the function.
\<close>

theorem load_wordlist_missing_file_default:
  "(open_file w filename = Lines ls \<longrightarrow>
      load_wordlist w filename = Inr (map strip (filter (\<lambda>line. \<not> blank line) ls))
      \<and> (\<exists>labels. load_wordlist w filename = Inr labels
            \<and> length labels = length (filter (\<lambda>line. \<not> blank line) ls)
            \<and> [] \<notin> set labels))
   \<and> (open_file w filename = ReadRaises FileNotFoundError \<longrightarrow>
        load_wordlist w filename =
          Inr [''www'', ''mail'', ''ftp'', ''admin'', ''api'', ''blog'', ''shop'', ''dev'', ''test''])
   \<and> (open_file w filename = ReadRaises e \<and> e \<noteq> FileNotFoundError \<longrightarrow>
        load_wordlist w filename = Inl e)"
proof -
  have a: "load_wordlist w filename = Inr (map strip (filter (\<lambda>line. \<not> blank line) ls))"
    if "open_file w filename = Lines ls"
    using that by (simp add: load_wordlist_cases)
  have ne: "[] \<notin> set (map strip (filter (\<lambda>line. \<not> blank line) ls))"
    using strip_empty_iff by (auto dest: sym)
  have b: "load_wordlist w filename =
          Inr [''www'', ''mail'', ''ftp'', ''admin'', ''api'', ''blog'', ''shop'', ''dev'', ''test'']"
    if "open_file w filename = ReadRaises FileNotFoundError"
    using that by (simp add: load_wordlist_cases default_wordlist_def)
  have c: "load_wordlist w filename = Inl e"
    if "open_file w filename = ReadRaises e \<and> e \<noteq> FileNotFoundError"
    using that by (simp add: load_wordlist_cases)
  show ?thesis using a ne b c by simp
qed

theorem load_wordlist_missing_file_default_witness:
  "open_file example_world ''words.txt'' =
     Lines [''www\<newline>'', ''\<newline>'', ''  api  \<newline>'', ''   '', ''mail'']
   \<and> load_wordlist example_world ''words.txt'' = Inr [''www'', ''api'', ''mail'']
   \<and> open_file example_world ''absent.txt'' = ReadRaises FileNotFoundError
   \<and> load_wordlist example_world ''absent.txt'' =
       Inr [''www'', ''mail'', ''ftp'', ''admin'', ''api'', ''blog'', ''shop'', ''dev'', ''test'']
   \<and> open_file example_world ''locked.txt'' = ReadRaises PermissionError
   \<and> PermissionError \<noteq> FileNotFoundError
   \<and> load_wordlist example_world ''locked.txt'' = Inl PermissionError"
proof -
  have h3: "open_file example_world ''locked.txt'' = ReadRaises PermissionError
            \<and> PermissionError \<noteq> FileNotFoundError"
    by (simp add: example_world_def)
  have c: "load_wordlist example_world ''locked.txt'' = Inl PermissionError"
    using load_wordlist_missing_file_default [of example_world "''locked.txt''" _ PermissionError]
          h3
    by blast
  have h1: "open_file example_world ''words.txt'' =
     Lines [''www\<newline>'', ''\<newline>'', ''  api  \<newline>'', ''   '', ''mail'']"
    by (simp add: example_world_def)
  have h2: "open_file example_world ''absent.txt'' = ReadRaises FileNotFoundError"
    by (simp add: example_world_def)
  have v: "map strip (filter (\<lambda>line. \<not> blank line)
             [''www\<newline>'', ''\<newline>'', ''  api  \<newline>'', ''   '', ''mail'']) =
           [''www'', ''api'', ''mail'']"
    by (simp add: strip_def blank_def py_isspace_def)
  have a: "load_wordlist example_world ''words.txt'' = Inr [''www'', ''api'', ''mail'']"
    using load_wordlist_missing_file_default
            [of example_world "''words.txt''"
               "[''www\<newline>'', ''\<newline>'', ''  api  \<newline>'', ''   '', ''mail'']"]
          h1 v
    by simp
  have b: "load_wordlist example_world ''absent.txt'' =
       Inr [''www'', ''mail'', ''ftp'', ''admin'', ''api'', ''blog'', ''shop'', ''dev'', ''test'']"
    using load_wordlist_missing_file_default [of example_world "''absent.txt''"] h2
    by blast
  show ?thesis using h1 a h2 b h3 c by blast
qed

section \<open>Properties of \<open>run_scan\<close>\<close>

lemma scan_wordlist_None: "scan_wordlist w None = load_wordlist w ''subdomains.txt''"
  by (simp add: scan_wordlist_def)

lemma run_scan_cases:
  "run_scan w d wordlist_file threads =
     (case scan_wordlist w wordlist_file of
        Inl e \<Rightarrow> Raises e
      | Inr wordlist \<Rightarrow>
          (if threads < 0 then Raises ValueError
           else if threads = 0 \<and> wordlist \<noteq> [] then Hangs
           else Returns (scan_over w d wordlist)))"
  by (simp add: run_scan_def brute_force_cases scan_over_def Let_def split: sum.splits)

lemma length_resolved_entries:
  "length (resolved_entries outs) = length (filter is_resolved outs)"
  by (induction outs rule: resolved_entries.induct) auto

lemma length_resolved_entries_le: "length (resolved_entries outs) \<le> length outs"
  by (induction outs rule: resolved_entries.induct) auto

text \<open>
  C3, as stated, fails: the code has no \<open>ResolverUnavailable\<close> error, and the
  construction of the resolver client is inside the \<open>try\<close> block of every candidate.
  In a world where the client cannot be constructed the batch and the scan return
  normally, with no subdomain found.
\<close>

theorem resolver_unavailable_counterexample:
  "new_resolver no_resolver_world = Some NoResolverConfiguration
   \<and> brute_force_subdomains no_resolver_world ''example.com'' [''www'', ''api''] 10 =
       Returns ([], [Acquired ''www'', NewResolver, Released ''www'',
                     Acquired ''api'', NewResolver, Released ''api''])
   \<and> run_scan no_resolver_world ''example.com'' (Some ''words.txt'') 10 =
       Returns
        (\<lparr>domain = ''example.com'',
          dns_records =
            [(''A'', [''192.0.2.1'']), (''AAAA'', []), (''CNAME'', []), (''MX'', []),
             (''TXT'', []),
             (''NS'', [''ns1.example.com.'', ''ns2.example.com.'', ''ns3.example.com.''])],
          subdomains = [], zone_transfer = [''a'', ''b'']\<rparr>,
         \<lparr>total_queries = 3, successful = 0, failed = 3\<rparr>)"
proof -
  have a: "new_resolver no_resolver_world = Some NoResolverConfiguration"
    by (simp add: no_resolver_world_def)
  have b: "brute_force_subdomains no_resolver_world ''example.com'' [''www'', ''api''] 10 =
       Returns ([], [Acquired ''www'', NewResolver, Released ''www'',
                     Acquired ''api'', NewResolver, Released ''api''])"
    by (simp add: brute_force_subdomains_def check_subdomain_def Let_def a)
  have wl: "scan_wordlist no_resolver_world (Some ''words.txt'') = Inr [''www'', ''api'', ''mail'']"
    by (simp add: scan_wordlist_def load_wordlist_def no_resolver_world_def example_world_def
          strip_def py_isspace_def)
  have bf: "brute_force_subdomains no_resolver_world ''example.com'' [''www'', ''api'', ''mail''] 10 =
       Returns ([], [Acquired ''www'', NewResolver, Released ''www'',
                     Acquired ''api'', NewResolver, Released ''api'',
                     Acquired ''mail'', NewResolver, Released ''mail''])"
    by (simp add: brute_force_subdomains_def check_subdomain_def Let_def a)
  have r: "fst (get_dns_records no_resolver_world ''example.com'') =
            [(''A'', [''192.0.2.1'']), (''AAAA'', []), (''CNAME'', []), (''MX'', []),
             (''TXT'', []),
             (''NS'', [''ns1.example.com.'', ''ns2.example.com.'', ''ns3.example.com.''])]"
    by (simp add: get_dns_records_def initial_records_def no_resolver_world_def example_world_def)
  have z: "fst (check_zone_transfer no_resolver_world ''example.com'') = [''a'', ''b'']"
    by (simp add: check_zone_transfer_def no_resolver_world_def example_world_def rstrip_dot_def)
  have c: "run_scan no_resolver_world ''example.com'' (Some ''words.txt'') 10 =
       Returns
        (\<lparr>domain = ''example.com'',
          dns_records =
            [(''A'', [''192.0.2.1'']), (''AAAA'', []), (''CNAME'', []), (''MX'', []),
             (''TXT'', []),
             (''NS'', [''ns1.example.com.'', ''ns2.example.com.'', ''ns3.example.com.''])],
          subdomains = [], zone_transfer = [''a'', ''b'']\<rparr>,
         \<lparr>total_queries = 3, successful = 0, failed = 3\<rparr>)"
    by (simp add: run_scan_def wl bf r z)
  show ?thesis using a b c by simp
qed

text \<open>
  C3, amended. No failure of a lookup leaves the batch: the batch raises only for a
  negative concurrency limit, and then \<open>ValueError\<close>. A resolver client that cannot be
  constructed is one more failure of every candidate: with a limit of at least 1 the
  batch returns the empty list. The scan raises exactly an exception of the wordlist
  read or, once the wordlist is read, the \<open>ValueError\<close> of a negative limit.
\<close>

theorem lookup_failures_never_raise:
  "(brute_force_subdomains w d wordlist threads = Raises e) = (threads < 0 \<and> e = ValueError)
   \<and> (1 \<le> threads \<and> new_resolver w \<noteq> None \<longrightarrow>
        brute_force_subdomains w d wordlist threads = Returns ([], batch_events w d wordlist))
   \<and> (run_scan w d wordlist_file threads = Raises e) =
       (case scan_wordlist w wordlist_file of
          Inl e' \<Rightarrow> e = e'
        | Inr wordlist \<Rightarrow> threads < 0 \<and> e = ValueError)"
proof -
  have a: "(brute_force_subdomains w d wordlist threads = Raises e) =
           (threads < 0 \<and> e = ValueError)"
    unfolding brute_force_cases by auto
  have none: "resolved_entries (outcomes w d wl) = []" if "new_resolver w \<noteq> None" for wl
  proof (induction wl)
    case Nil
    then show ?case by (simp add: outcomes_def)
  next
    case (Cons x xs)
    have "fst (check_subdomain w d x) = Unresolved"
      using that by (auto simp: outcome_cases split: option.splits)
    then show ?case using Cons by (simp add: outcomes_def)
  qed
  have b: "brute_force_subdomains w d wordlist threads = Returns ([], batch_events w d wordlist)"
    if "1 \<le> threads \<and> new_resolver w \<noteq> None"
  proof -
    have "0 < threads" using that by simp
    then show ?thesis using brute_force_returns [of threads w d wordlist] none that by simp
  qed
  have c: "(run_scan w d wordlist_file threads = Raises e) =
       (case scan_wordlist w wordlist_file of
          Inl e' \<Rightarrow> e = e'
        | Inr wordlist \<Rightarrow> threads < 0 \<and> e = ValueError)"
    unfolding run_scan_cases by (auto split: sum.splits)
  show ?thesis using a b c by blast
qed

theorem lookup_failures_never_raise_witness:
  "(1::int) \<le> 4 \<and> new_resolver no_resolver_world \<noteq> None
   \<and> brute_force_subdomains no_resolver_world ''example.com'' [''www''] 4 =
       Returns ([], [Acquired ''www'', NewResolver, Released ''www''])"
proof -
  have h: "(1::int) \<le> 4 \<and> new_resolver no_resolver_world \<noteq> None"
    by (simp add: no_resolver_world_def)
  have e: "batch_events no_resolver_world ''example.com'' [''www''] =
           [Acquired ''www'', NewResolver, Released ''www'']"
    by (simp add: batch_events_def task_events_def check_subdomain_def Let_def
          no_resolver_world_def)
  have "brute_force_subdomains no_resolver_world ''example.com'' [''www''] 4 =
        Returns ([], batch_events no_resolver_world ''example.com'' [''www''])"
    using lookup_failures_never_raise
            [of no_resolver_world "''example.com''" "[''www'']" 4] h
    by blast
  then show ?thesis using h e by simp
qed

text \<open>
  A resolver that times out on every candidate: the scan still returns, every candidate
  is counted as failed and none as successful.
\<close>

lemma run_scan_all_lookups_time_out:
  "run_scan silent_world ''example.com'' (Some ''words.txt'') 10 =
     Returns
      (\<lparr>domain = ''example.com'',
        dns_records =
          [(''A'', []), (''AAAA'', []), (''CNAME'', []), (''MX'', []), (''TXT'', []), (''NS'', [])],
        subdomains = [], zone_transfer = []\<rparr>,
       \<lparr>total_queries = 3, successful = 0, failed = 3\<rparr>)"
proof -
  have wl: "scan_wordlist silent_world (Some ''words.txt'') = Inr [''www'', ''api'', ''mail'']"
    by (simp add: scan_wordlist_def load_wordlist_def silent_world_def example_world_def
          strip_def py_isspace_def)
  have bf: "fst (resolved_entries (outcomes silent_world ''example.com'' [''www'', ''api'', ''mail'']),
                 batch_events silent_world ''example.com'' [''www'', ''api'', ''mail'']) = []"
    by (simp add: outcomes_def check_subdomain_def Let_def silent_world_def example_world_def)
  have r: "fst (get_dns_records silent_world ''example.com'') =
          [(''A'', []), (''AAAA'', []), (''CNAME'', []), (''MX'', []), (''TXT'', []), (''NS'', [])]"
    by (simp add: get_dns_records_def initial_records_def silent_world_def)
  have z: "fst (check_zone_transfer silent_world ''example.com'') = []"
    by (simp add: check_zone_transfer_def silent_world_def)
  show ?thesis
    using bf by (simp add: run_scan_cases wl scan_over_def r z)
qed

text \<open>
  C6. After every scan that returns, the counters satisfy
  \<open>successful + failed = total_queries\<close>, where \<open>total_queries\<close> is the length of the
  wordlist the scan used and \<open>successful\<close> is the number of Resolved outcomes among
  the outcomes of its candidates (the length of the list of subdomains returned);
  \<open>failed\<close> is not negative.
\<close>

theorem run_scan_statistics:
  "run_scan w d wordlist_file threads = Returns (results, st) \<Longrightarrow>
   successful st + failed st = total_queries st
   \<and> 0 \<le> failed st
   \<and> (\<exists>wordlist.
         scan_wordlist w wordlist_file = Inr wordlist
         \<and> total_queries st = int (length wordlist)
         \<and> successful st = int (length (filter is_resolved (outcomes w d wordlist)))
         \<and> successful st = int (length (subdomains results)))"
proof -
  assume ret: "run_scan w d wordlist_file threads = Returns (results, st)"
  then obtain wordlist where wl: "scan_wordlist w wordlist_file = Inr wordlist"
    unfolding run_scan_cases by (cases "scan_wordlist w wordlist_file") auto
  have eq: "(results, st) = scan_over w d wordlist"
    using ret unfolding run_scan_cases wl by (simp split: if_splits)
  have res: "subdomains results = resolved_entries (outcomes w d wordlist)"
    and tot: "total_queries st = int (length wordlist)"
    and suc: "successful st = int (length (resolved_entries (outcomes w d wordlist)))"
    and fai: "failed st = int (length wordlist)
                - int (length (resolved_entries (outcomes w d wordlist)))"
    using eq by (simp_all add: scan_over_def)
  have le: "length (resolved_entries (outcomes w d wordlist)) \<le> length wordlist"
    using length_resolved_entries_le [of "outcomes w d wordlist"] by (simp add: outcomes_def)
  have sum: "successful st + failed st = total_queries st" using tot suc fai by simp
  have nonneg: "0 \<le> failed st" using fai le by simp
  have cnt: "successful st = int (length (filter is_resolved (outcomes w d wordlist)))"
    using suc by (simp add: length_resolved_entries)
  have len: "successful st = int (length (subdomains results))" using suc res by simp
  show ?thesis using sum nonneg wl tot cnt len by blast
qed

theorem run_scan_statistics_witness:
  "run_scan example_world ''example.com'' (Some ''words.txt'') 10 =
     Returns
      (\<lparr>domain = ''example.com'',
        dns_records =
          [(''A'', [''192.0.2.1'']), (''AAAA'', []), (''CNAME'', []), (''MX'', []),
           (''TXT'', []),
           (''NS'', [''ns1.example.com.'', ''ns2.example.com.'', ''ns3.example.com.''])],
        subdomains =
          [\<lparr>subdomain = ''www.example.com'', ips = [''192.0.2.10''], type = ''A''\<rparr>],
        zone_transfer = [''a'', ''b'']\<rparr>,
       \<lparr>total_queries = 3, successful = 1, failed = 2\<rparr>)
   \<and> successful \<lparr>total_queries = 3, successful = 1, failed = 2\<rparr>
       + failed \<lparr>total_queries = 3, successful = 1, failed = 2\<rparr>
       = total_queries \<lparr>total_queries = 3, successful = 1, failed = 2\<rparr>
   \<and> scan_wordlist example_world (Some ''words.txt'') = Inr [''www'', ''api'', ''mail'']"
proof -
  have wl: "scan_wordlist example_world (Some ''words.txt'') = Inr [''www'', ''api'', ''mail'']"
    by (simp add: scan_wordlist_def load_wordlist_def example_world_def strip_def py_isspace_def)
  have bf: "brute_force_subdomains example_world ''example.com'' [''www'', ''api'', ''mail''] 10 =
       Returns
        ([\<lparr>subdomain = ''www.example.com'', ips = [''192.0.2.10''], type = ''A''\<rparr>],
         [Acquired ''www'', NewResolver, ResolverResolve ''www.example.com'' ''A'', Released ''www'',
          Acquired ''api'', NewResolver, ResolverResolve ''api.example.com'' ''A'', Released ''api'',
          Acquired ''mail'', NewResolver, ResolverResolve ''mail.example.com'' ''A'',
          Released ''mail''])"
    by (simp add: brute_force_subdomains_def check_subdomain_def Let_def example_world_def)
  have r: "fst (get_dns_records example_world ''example.com'') =
            [(''A'', [''192.0.2.1'']), (''AAAA'', []), (''CNAME'', []), (''MX'', []),
             (''TXT'', []),
             (''NS'', [''ns1.example.com.'', ''ns2.example.com.'', ''ns3.example.com.''])]"
    by (simp add: get_dns_records_def initial_records_def example_world_def)
  have z: "fst (check_zone_transfer example_world ''example.com'') = [''a'', ''b'']"
    by (simp add: check_zone_transfer_def example_world_def rstrip_dot_def)
  have h: "run_scan example_world ''example.com'' (Some ''words.txt'') 10 =
     Returns
      (\<lparr>domain = ''example.com'',
        dns_records =
          [(''A'', [''192.0.2.1'']), (''AAAA'', []), (''CNAME'', []), (''MX'', []),
           (''TXT'', []),
           (''NS'', [''ns1.example.com.'', ''ns2.example.com.'', ''ns3.example.com.''])],
        subdomains =
          [\<lparr>subdomain = ''www.example.com'', ips = [''192.0.2.10''], type = ''A''\<rparr>],
        zone_transfer = [''a'', ''b'']\<rparr>,
       \<lparr>total_queries = 3, successful = 1, failed = 2\<rparr>)"
    by (simp add: run_scan_def wl bf r z)
  from run_scan_statistics [OF h]
  have "successful \<lparr>total_queries = 3, successful = 1, failed = 2\<rparr>
       + failed \<lparr>total_queries = 3, successful = 1, failed = 2\<rparr>
       = total_queries \<lparr>total_queries = 3, successful = 1, failed = 2\<rparr>"
    by blast
  then show ?thesis using h wl by blast
qed

text \<open>
  C10. When the caller gives no wordlist file (no path, or the empty path) and the
  concurrency limit is at least 1, the scan reads the file \<open>subdomains.txt\<close>: when the
  file can be read the batch runs over its labels; the batch runs over the embedded
  default list only when that file does not exist; any other failure to read it raises.
\<close>

theorem run_scan_tries_subdomains_txt:
  "1 \<le> threads \<Longrightarrow>
   run_scan w d None threads =
     (case open_file w ''subdomains.txt'' of
        Lines ls \<Rightarrow> Returns (scan_over w d (map strip (filter (\<lambda>line. \<not> blank line) ls)))
      | ReadRaises e \<Rightarrow>
          (if e = FileNotFoundError then Returns (scan_over w d default_wordlist)
           else Raises e))
   \<and> run_scan w d (Some []) threads = run_scan w d None threads"
proof -
  assume "1 \<le> threads"
  then have t: "\<not> threads < 0" "threads \<noteq> 0" by simp_all
  have a: "run_scan w d None threads =
     (case open_file w ''subdomains.txt'' of
        Lines ls \<Rightarrow> Returns (scan_over w d (map strip (filter (\<lambda>line. \<not> blank line) ls)))
      | ReadRaises e \<Rightarrow>
          (if e = FileNotFoundError then Returns (scan_over w d default_wordlist)
           else Raises e))"
    unfolding run_scan_cases scan_wordlist_None load_wordlist_cases
    using t by (simp split: file_read.splits)
  have "scan_wordlist w (Some []) = scan_wordlist w None" by (simp add: scan_wordlist_def)
  then have b: "run_scan w d (Some []) threads = run_scan w d None threads"
    unfolding run_scan_cases by simp
  show ?thesis using a b by simp
qed

theorem run_scan_tries_subdomains_txt_witness:
  "(1::int) \<le> 10
   \<and> run_scan example_world ''example.com'' None 10 =
       Returns (scan_over example_world ''example.com'' [''www'', ''dev''])
   \<and> total_queries (snd (scan_over example_world ''example.com'' [''www'', ''dev''])) = 2
   \<and> run_scan no_files_world ''example.com'' None 10 =
       Returns (scan_over no_files_world ''example.com'' default_wordlist)
   \<and> total_queries (snd (scan_over no_files_world ''example.com'' default_wordlist)) = 9"
proof -
  have h: "(1::int) \<le> 10" by simp
  have f1: "open_file example_world ''subdomains.txt'' = Lines [''www\<newline>'', ''dev\<newline>'']"
    by (simp add: example_world_def)
  have f2: "open_file no_files_world ''subdomains.txt'' = ReadRaises FileNotFoundError"
    by (simp add: no_files_world_def)
  have v: "map strip (filter (\<lambda>line. \<not> blank line) [''www\<newline>'', ''dev\<newline>'']) =
           [''www'', ''dev'']"
    by (simp add: strip_def blank_def py_isspace_def)
  have a: "run_scan example_world ''example.com'' None 10 =
       Returns (scan_over example_world ''example.com'' [''www'', ''dev''])"
    using run_scan_tries_subdomains_txt [OF h, of example_world "''example.com''"] f1 v
    by simp
  have b: "run_scan no_files_world ''example.com'' None 10 =
       Returns (scan_over no_files_world ''example.com'' default_wordlist)"
    using run_scan_tries_subdomains_txt [OF h, of no_files_world "''example.com''"] f2
    by simp
  have c: "total_queries (snd (scan_over example_world ''example.com'' [''www'', ''dev''])) = 2"
          "total_queries (snd (scan_over no_files_world ''example.com'' default_wordlist)) = 9"
    by (simp_all add: scan_over_def default_wordlist_def)
  show ?thesis using h a b c by simp
qed

end
